theory Spec2Isabelle
  imports Main "HOL-Library.AList"
begin

section \<open>Data model of useAvoidIntersections.ts\<close>

text \<open>
  Numbers. The source computes with JavaScript numbers, IEEE binary64. The model
  represents a number by its value, an \<open>int\<close>: the numbers of the model are the doubles with
  an integer value. Fractional values, NaN and the infinities are outside the model.
  Comparison, \<open>Math.min\<close> and \<open>Math.max\<close> and the test for zero are exact on doubles, so
  they are the ones of \<open>int\<close>. Addition and subtraction round, and the functions that add
  or subtract are given twice: with the exact \<open>+\<close> and \<open>-\<close> of \<open>int\<close>, what the source
  computes as long as no sum is rounded, and, under names ending in \<open>64\<close>, with the rounded
  \<open>plus64\<close> and \<open>minus64\<close>, what the source computes on every integer-valued input.

  A value of type \<open>number | null | undefined\<close> (a node's \<open>width\<close> and \<open>height\<close>) is an
  \<open>int option\<close>, \<open>None\<close> standing for both \<open>null\<close> and \<open>undefined\<close>.
\<close>

record position =
  pos_x :: int
  pos_y :: int

record 'd node =
  id_node :: string
  position :: position
  data :: 'd
  width :: "int option"
  height :: "int option"

text \<open>
  The module \<open>@app/lineageV3/common\<close> is imported by the source and is not part of it.
  What the source takes from it is a parameter of the model: two constants and the
  classification predicate.
\<close>

record ('d, 'r) common =
  LINEAGE_NODE_HEIGHT :: int
  LINEAGE_NODE_WIDTH :: int
  isTransformational :: "'d \<Rightarrow> 'r \<Rightarrow> bool"

text \<open>
  The React Flow instance: the node collection it owns, read by \<open>getNode\<close> and
  \<open>getNodes\<close> and replaced by \<open>setNodes\<close>. The number of calls of \<open>setNodes\<close> is kept,
  so that "no call is made" can be said.
\<close>

record 'd flow =
  nodes :: "'d node list"
  setNodes_calls :: nat

definition getNode :: "'d flow \<Rightarrow> string \<Rightarrow> 'd node option" where
  "getNode st i = find (\<lambda>n. id_node n = i) (nodes st)"

definition getNodes :: "'d flow \<Rightarrow> 'd node list" where
  "getNodes st = nodes st"

definition setNodes :: "('d node list \<Rightarrow> 'd node list) \<Rightarrow> 'd flow \<Rightarrow> 'd flow" where
  "setNodes f st = st\<lparr>nodes := f (nodes st), setNodes_calls := Suc (setNodes_calls st)\<rparr>"

text \<open>The \<open>Arguments\<close> of the source, without the three accessors of the instance.\<close>

record 'r arguments =
  arg_id :: string
  expandHeight :: int
  rootType :: 'r

text \<open>
  \<open>Map<string, number>\<close>: an association list in insertion order. \<open>Map.set\<close> is
  \<open>AList.update\<close> (an existing key keeps its place), \<open>Map.get\<close> is \<open>map_of\<close>,
  \<open>Map.size\<close> is \<open>length\<close>.
\<close>

type_synonym moveset = "(string \<times> int) list"

section \<open>The functions of the source, with exact sums\<close>

text \<open>A number is truthy when it is not zero; \<open>v || d\<close> on an optional number.\<close>

definition truthy :: "int \<Rightarrow> bool" where
  "truthy v = (v \<noteq> 0)"

definition or_default :: "int option \<Rightarrow> int \<Rightarrow> int" where
  "or_default v d = (case v of None \<Rightarrow> d | Some w \<Rightarrow> if truthy w then w else d)"

definition MIN_SEPARATION :: int where
  "MIN_SEPARATION = 10"

definition pushDownDistance :: "int \<Rightarrow> int \<Rightarrow> int" where
  "pushDownDistance newY nodeY = max 0 (newY + MIN_SEPARATION - nodeY)"

definition overlapsX :: "('d, 'r) common \<Rightarrow> 'd node \<Rightarrow> 'd node \<Rightarrow> bool" where
  "overlapsX c a b =
     (min (pos_x (position a) + or_default (width a) (LINEAGE_NODE_WIDTH c))
          (pos_x (position b) + or_default (width b) (LINEAGE_NODE_WIDTH c))
      > max (pos_x (position a)) (pos_x (position b)))"

text \<open>The function mapped over the collection by \<open>moveNodes\<close>, and \<open>moveNodes\<close>.\<close>

definition moveNode :: "moveset \<Rightarrow> bool \<Rightarrow> 'd node \<Rightarrow> 'd node" where
  "moveNode nodesToMove down n =
     (case map_of nodesToMove (id_node n) of
        None \<Rightarrow> n
      | Some moveAmount \<Rightarrow>
          if truthy moveAmount
          then n\<lparr>position := (position n)
                 \<lparr>pos_y := pos_y (position n) + (if down then moveAmount else - moveAmount)\<rparr>\<rparr>
          else n)"

definition moveNodes :: "moveset \<Rightarrow> bool \<Rightarrow> 'd flow \<Rightarrow> 'd flow" where
  "moveNodes nodesToMove down = setNodes (map (moveNode nodesToMove down))"

text \<open>
  The two \<open>filter\<close> calls of \<open>avoidIntersections\<close> and the sort. \<open>Array.prototype.sort\<close>
  is stable, and so is \<open>sort_key\<close>.
\<close>

definition candidates ::
  "('d, 'r) common \<Rightarrow> 'r \<Rightarrow> 'd node \<Rightarrow> 'd node list \<Rightarrow> 'd node list" where
  "candidates c rt self ns =
     filter (\<lambda>n. id_node n \<noteq> id_node self
                \<and> pos_y (position n) \<ge> pos_y (position self)
                \<and> overlapsX c self n)
       (filter (\<lambda>n. \<not> isTransformational c (data n) rt) ns)"

definition sortByY :: "'d node list \<Rightarrow> 'd node list" where
  "sortByY ns = sort_key (\<lambda>n. pos_y (position n)) ns"

text \<open>
  The \<open>for\<close> loop with its \<open>break\<close>. The loop state is the pair of \<open>newY\<close> and
  \<open>nodesToMove\<close>; the function returns the state in which the loop ends.
\<close>

fun cascade :: "('d, 'r) common \<Rightarrow> int \<times> moveset \<Rightarrow> 'd node list \<Rightarrow> int \<times> moveset" where
  "cascade c (newY, nodesToMove) [] = (newY, nodesToMove)"
| "cascade c (newY, nodesToMove) (n # ns) =
     (let distance = pushDownDistance newY (pos_y (position n))
      in if truthy (pushDownDistance newY (pos_y (position n)))
         then cascade c
                (pos_y (position n) + distance + or_default (height n) (LINEAGE_NODE_HEIGHT c),
                 AList.update (id_node n) distance nodesToMove)
                ns
         else (newY, nodesToMove))"

text \<open>Lines 55 to 72: the MoveSet computed for a reference node \<open>self\<close>.\<close>

definition computeMoves ::
  "('d, 'r) common \<Rightarrow> 'r arguments \<Rightarrow> 'd node \<Rightarrow> 'd node list \<Rightarrow> moveset" where
  "computeMoves c args self ns =
     snd (cascade c (pos_y (position self) + expandHeight args, [])
            (sortByY (candidates c (rootType args) self ns)))"

text \<open>
  \<open>avoidIntersections\<close> returns the instance after its effects and the cleanup
  function, itself an effect on the instance.
\<close>

definition avoidIntersections ::
  "('d, 'r) common \<Rightarrow> 'r arguments \<Rightarrow> 'd flow \<Rightarrow> 'd flow \<times> ('d flow \<Rightarrow> 'd flow)" where
  "avoidIntersections c args st =
     (case getNode st (arg_id args) of
        None \<Rightarrow> (st, \<lambda>s. s)
      | Some self \<Rightarrow>
          (let nodesToMove = computeMoves c args self (getNodes st)
           in if length nodesToMove \<noteq> 0
              then (moveNodes nodesToMove True st, moveNodes nodesToMove False)
              else (st, \<lambda>s. s)))"

section \<open>Binary64 arithmetic on integer values\<close>

text \<open>
  The sum and the difference of two doubles with integer values are the nearest double
  to the exact integer result, ties going to the even significand. A double has 53
  significant bits: an integer of at most 53 bits is a double, and a longer one is
  rounded to a multiple of \<open>2 ^ (bits - 53)\<close>. \<open>round64\<close> is that rounding and
  \<open>representable\<close> says that a value is not changed by it. Overflow to infinity, beyond
  \<open>2 ^ 1024\<close>, is outside the model.
\<close>

function bit_length :: "int \<Rightarrow> nat" where
  "bit_length n = (if n \<le> 0 then 0 else Suc (bit_length (n div 2)))"
  by pat_completeness auto
termination
  by (relation "measure nat") auto

declare bit_length.simps [simp del]

definition round_half_even :: "int \<Rightarrow> int \<Rightarrow> int" where
  "round_half_even n q =
     (let f = n div q; r = n mod q
      in if 2 * r < q then f
         else if q < 2 * r then f + 1
         else if even f then f else f + 1)"

definition round64 :: "int \<Rightarrow> int" where
  "round64 v = (let q = 2 ^ (bit_length \<bar>v\<bar> - 53) in round_half_even v q * q)"


definition plus64 :: "int \<Rightarrow> int \<Rightarrow> int" where
  "plus64 a b = round64 (a + b)"


section \<open>The functions of the source, with rounded sums\<close>



definition moveNode64 :: "moveset \<Rightarrow> bool \<Rightarrow> 'd node \<Rightarrow> 'd node" where
  "moveNode64 nodesToMove down n =
     (case map_of nodesToMove (id_node n) of
        None \<Rightarrow> n
      | Some moveAmount \<Rightarrow>
          if truthy moveAmount
          then n\<lparr>position := (position n)
                 \<lparr>pos_y := plus64 (pos_y (position n))
                                  (if down then moveAmount else - moveAmount)\<rparr>\<rparr>
          else n)"






section \<open>\<open>moveNodes\<close> on references\<close>





section \<open>Auxiliary definitions for the statements and proofs\<close>

text \<open>
  The bottom edge of a node: its y plus \<open>height || LINEAGE_NODE_HEIGHT\<close>, the height by
  which the loop advances the frontier. The sum is the exact one: the edge is where the
  box ends, whether or not that value is a double.
\<close>

definition bottom :: "('d, 'r) common \<Rightarrow> 'd node \<Rightarrow> int" where
  "bottom c n = pos_y (position n) + or_default (height n) (LINEAGE_NODE_HEIGHT c)"


text \<open>
  A proof device, not a function of the source: the nodes that the loop records, in the
  order of the walk, each with the distance recorded for it. Lemma \<open>cascade_pushed\<close>
  ties it to \<open>cascade\<close>.
\<close>

fun pushed :: "('d, 'r) common \<Rightarrow> int \<Rightarrow> 'd node list \<Rightarrow> ('d node \<times> int) list" where
  "pushed c newY [] = []"
| "pushed c newY (n # ns) =
     (let distance = pushDownDistance newY (pos_y (position n))
      in if truthy distance
         then (n, distance)
              # pushed c (pos_y (position n) + distance
                          + or_default (height n) (LINEAGE_NODE_HEIGHT c)) ns
         else [])"

text \<open>
  Concrete inputs. The node data is the classification itself: a node is transformational
  when its data is \<open>True\<close>. The scenario of the specification has \<open>self\<close> at y 100, B at
  y 150 with height 40 and C at y 210, in one column. The crowded collection adds D
  further down the column, a transformational node T in the column, a node A above
  \<open>self\<close> and a node F far to the right. Both collections list the nodes out of order.
\<close>

definition scenario_common :: "int \<Rightarrow> int \<Rightarrow> (bool, unit) common" where
  "scenario_common h w =
     \<lparr>LINEAGE_NODE_HEIGHT = h, LINEAGE_NODE_WIDTH = w, isTransformational = (\<lambda>d _. d)\<rparr>"

definition scenario_node :: "string \<Rightarrow> int \<Rightarrow> int \<Rightarrow> int option \<Rightarrow> bool \<Rightarrow> bool node" where
  "scenario_node i px py h t =
     \<lparr>id_node = i, position = \<lparr>pos_x = px, pos_y = py\<rparr>, data = t,
      width = Some 320, height = h\<rparr>"

definition scenario_self :: "bool node" where
  "scenario_self = scenario_node ''self'' 0 100 None False"

definition scenario_B :: "bool node" where
  "scenario_B = scenario_node ''B'' 0 150 (Some 40) False"

definition scenario_C :: "bool node" where
  "scenario_C = scenario_node ''C'' 0 210 None False"

definition scenario_D :: "bool node" where
  "scenario_D = scenario_node ''D'' 0 300 None False"

definition scenario_T :: "bool node" where
  "scenario_T = scenario_node ''T'' 0 160 None True"

definition scenario_A :: "bool node" where
  "scenario_A = scenario_node ''A'' 0 50 None False"

definition scenario_F :: "bool node" where
  "scenario_F = scenario_node ''F'' 1000 120 None False"

definition scenario_args :: "int \<Rightarrow> unit arguments" where
  "scenario_args e = \<lparr>arg_id = ''self'', expandHeight = e, rootType = ()\<rparr>"

definition scenario_flow :: "bool flow" where
  "scenario_flow = \<lparr>nodes = [scenario_C, scenario_self, scenario_B], setNodes_calls = 0\<rparr>"

definition crowded_flow :: "bool flow" where
  "crowded_flow =
     \<lparr>nodes = [scenario_C, scenario_T, scenario_self, scenario_A, scenario_D, scenario_F,
               scenario_B],
      setNodes_calls = 0\<rparr>"






lemmas scenario_defs = scenario_common_def scenario_node_def scenario_self_def
  scenario_B_def scenario_C_def scenario_D_def scenario_T_def scenario_A_def scenario_F_def
  scenario_args_def scenario_flow_def crowded_flow_def

lemmas model_defs = getNode_def getNodes_def setNodes_def truthy_def or_default_def
  MIN_SEPARATION_def pushDownDistance_def overlapsX_def moveNode_def moveNodes_def
  candidates_def sortByY_def computeMoves_def avoidIntersections_def bottom_def



section \<open>The loop\<close>

lemma update_fresh: "k \<notin> fst ` set al \<Longrightarrow> AList.update k v al = al @ [(k, v)]"
  by (induction al) auto


lemma cascade_pushed:
  "distinct (map id_node ns) \<Longrightarrow> id_node ` set ns \<inter> fst ` set m = {} \<Longrightarrow>
   snd (cascade c (f, m) ns) = m @ map (\<lambda>(n, d). (id_node n, d)) (pushed c f ns)"
proof (induction ns arbitrary: f m)
  case Nil
  then show ?case by simp
next
  case (Cons n ns)
  let ?d = "pushDownDistance f (pos_y (position n))"
  show ?case
  proof (cases "truthy ?d")
    case False
    then show ?thesis by simp
  next
    case True
    have fresh: "id_node n \<notin> fst ` set m" using Cons.prems(2) by auto
    have disj: "id_node ` set ns \<inter> fst ` set (m @ [(id_node n, ?d)]) = {}"
      using Cons.prems by auto
    have dist: "distinct (map id_node ns)" using Cons.prems(1) by simp
    show ?thesis
      using True Cons.IH [OF dist disj] by (simp add: update_fresh [OF fresh] Let_def)
  qed
qed

lemma cascade_stop:
  "cascade c s pre = (f, m) \<Longrightarrow> f + MIN_SEPARATION - pos_y (position x) \<le> 0 \<Longrightarrow>
   cascade c s (pre @ x # post) = (f, m)"
proof (induction pre arbitrary: s)
  case Nil
  then show ?case
    by (cases s) (simp add: truthy_def pushDownDistance_def)
next
  case (Cons a pre)
  obtain newY acc where s: "s = (newY, acc)" by (cases s)
  show ?case
  proof (cases "truthy (pushDownDistance newY (pos_y (position a)))")
    case True
    then show ?thesis using Cons.prems Cons.IH s by (simp add: Let_def)
  next
    case False
    then show ?thesis using Cons.prems s by simp
  qed
qed

lemma cascade_keys:
  "fst ` set (snd (cascade c (f, m) ns)) \<subseteq> fst ` set m \<union> id_node ` set ns"
proof (induction ns arbitrary: f m)
  case Nil
  then show ?case by simp
next
  case (Cons a ns)
  show ?case
  proof (cases "truthy (pushDownDistance f (pos_y (position a)))")
    case True
    let ?d = "pushDownDistance f (pos_y (position a))"
    let ?f = "pos_y (position a) + ?d + or_default (height a) (LINEAGE_NODE_HEIGHT c)"
    have "fst ` set (snd (cascade c (?f, AList.update (id_node a) ?d m) ns))
          \<subseteq> fst ` set (AList.update (id_node a) ?d m) \<union> id_node ` set ns"
      by (rule Cons.IH)
    then show ?thesis using True by (auto simp: Let_def dom_update)
  next
    case False
    then show ?thesis by auto
  qed
qed

lemma pushed_prefix: "map fst (pushed c f ns) = take (length (pushed c f ns)) ns"
  by (induction ns arbitrary: f) (auto simp: Let_def)


lemma pushed_subset: "fst ` set (pushed c f ns) \<subseteq> set ns"
proof -
  have "set (map fst (pushed c f ns)) \<subseteq> set ns"
    unfolding pushed_prefix [of c f ns] by (rule set_take_subset)
  then show ?thesis by simp
qed








section \<open>Moving nodes\<close>

lemma moveNode_id [simp]: "id_node (moveNode m down n) = id_node n"
  by (simp add: moveNode_def split: option.splits)


lemma moveNode_None: "map_of m (id_node n) = None \<Longrightarrow> moveNode m down n = n"
  by (simp add: moveNode_def)


lemma moveNode_empty [simp]: "moveNode [] down n = n"
  by (simp add: moveNode_def)

lemma map_moveNode_empty [simp]: "map (moveNode [] down) ns = ns"
  by (simp add: map_idI)

lemma nodes_moveNodes: "nodes (moveNodes m down st) = map (moveNode m down) (nodes st)"
  by (simp add: moveNodes_def setNodes_def)



section \<open>The MoveSet of a collection with unique identifiers\<close>

lemma getNode_Some:
  "getNode st i = Some self \<Longrightarrow> self \<in> set (nodes st) \<and> id_node self = i"
  by (auto simp: getNode_def find_Some_iff)

lemma same_id_same_node:
  "distinct (map id_node ns) \<Longrightarrow> a \<in> set ns \<Longrightarrow> b \<in> set ns \<Longrightarrow>
   id_node a = id_node b \<longleftrightarrow> a = b"
  by (auto simp: distinct_map inj_on_def)

lemma candidates_filter:
  "candidates c rt self ns
   = filter (\<lambda>n. id_node n \<noteq> id_node self
               \<and> pos_y (position n) \<ge> pos_y (position self)
               \<and> \<not> isTransformational c (data n) rt
               \<and> overlapsX c self n) ns"
  by (auto simp: candidates_def intro: filter_cong)

lemma candidates_none:
  "\<forall>n \<in> set ns. id_node n \<noteq> id_node self \<longrightarrow> \<not> overlapsX c self n \<Longrightarrow>
   candidates c rt self ns = []"
  by (auto simp: candidates_filter filter_empty_conv)

lemma set_sorted_candidates:
  "set (sortByY (candidates c rt self ns)) \<subseteq> set ns"
  by (auto simp: sortByY_def candidates_def)

lemma distinct_ids_sorted_candidates:
  "distinct (map id_node ns) \<Longrightarrow> distinct (map id_node (sortByY (candidates c rt self ns)))"
  by (auto simp: distinct_map sortByY_def candidates_def intro: inj_on_subset)

lemma computeMoves_pushed:
  "distinct (map id_node ns) \<Longrightarrow>
   computeMoves c args self ns
   = map (\<lambda>(n, d). (id_node n, d))
       (pushed c (pos_y (position self) + expandHeight args)
          (sortByY (candidates c (rootType args) self ns)))"
  unfolding computeMoves_def
  using cascade_pushed [OF distinct_ids_sorted_candidates, where m = "[]"] by simp

lemma length_computeMoves:
  "distinct (map id_node ns) \<Longrightarrow>
   length (computeMoves c args self ns)
   = length (pushed c (pos_y (position self) + expandHeight args)
               (sortByY (candidates c (rootType args) self ns)))"
  by (simp add: computeMoves_pushed)

lemma map_of_by_id:
  "inj_on id_node (insert n (fst ` set ps)) \<Longrightarrow>
   map_of (map (\<lambda>(n, d). (id_node n, d)) ps) (id_node n) = map_of ps n"
proof (induction ps)
  case Nil
  then show ?case by simp
next
  case (Cons p ps)
  obtain a d where p: "p = (a, d)" by (cases p)
  have inj: "inj_on id_node (insert n (fst ` set ps))"
    using Cons.prems by (auto intro: inj_on_subset)
  have "id_node n = id_node a \<longleftrightarrow> n = a"
    using Cons.prems p by (auto simp: inj_on_def)
  then show ?case using Cons.IH [OF inj] p by simp
qed

lemma moveset_lookup:
  assumes "distinct (map id_node ns)" and "n \<in> set ns"
  shows "map_of (computeMoves c args self ns) (id_node n)
         = map_of (pushed c (pos_y (position self) + expandHeight args)
                     (sortByY (candidates c (rootType args) self ns))) n"
proof -
  let ?P = "pushed c (pos_y (position self) + expandHeight args)
              (sortByY (candidates c (rootType args) self ns))"
  have "fst ` set ?P \<subseteq> set ns"
    using pushed_subset set_sorted_candidates by fastforce
  then have sub: "insert n (fst ` set ?P) \<subseteq> set ns" using assms(2) by simp
  have "inj_on id_node (set ns)" using assms(1) by (simp add: distinct_map)
  then have "inj_on id_node (insert n (fst ` set ?P))" using sub by (rule inj_on_subset)
  then show ?thesis
    by (simp add: computeMoves_pushed [OF assms(1)] map_of_by_id)
qed

lemma not_pushed_not_moved:
  assumes ids: "distinct (map id_node ns)" and n: "n \<in> set ns"
    and out: "n \<notin> set (take (length (computeMoves c args self ns))
                          (sortByY (candidates c (rootType args) self ns)))"
  shows "map_of (computeMoves c args self ns) (id_node n) = None"
proof -
  let ?P = "pushed c (pos_y (position self) + expandHeight args)
              (sortByY (candidates c (rootType args) self ns))"
  have "set (map fst ?P)
        = set (take (length ?P) (sortByY (candidates c (rootType args) self ns)))"
    by (simp only: pushed_prefix [symmetric])
  then have "n \<notin> fst ` set ?P" using out by (simp add: length_computeMoves [OF ids])
  then have "map_of ?P n = None" by (simp add: map_of_eq_None_iff)
  then show ?thesis by (simp add: moveset_lookup [OF ids n])
qed

lemma nodes_avoidIntersections:
  "getNode st (arg_id args) = Some self \<Longrightarrow>
   nodes (fst (avoidIntersections c args st))
   = map (moveNode (computeMoves c args self (getNodes st)) True) (nodes st)"
  by (cases "computeMoves c args self (getNodes st)")
     (simp_all add: avoidIntersections_def nodes_moveNodes Let_def)

section \<open>Rounding\<close>






section \<open>The loop with rounded sums\<close>









section \<open>Moving nodes with rounded sums\<close>

lemma moveNode64_id [simp]: "id_node (moveNode64 m down n) = id_node n"
  by (simp add: moveNode64_def split: option.splits)


lemma moveNode64_empty [simp]: "moveNode64 [] down n = n"
  by (simp add: moveNode64_def)

lemma map_moveNode64_empty [simp]: "map (moveNode64 [] down) ns = ns"
  by (simp add: map_idI)










section \<open>Separation of the cascaded nodes\<close>





section \<open>Round trip of a MoveSet\<close>





section \<open>The scenario of the specification\<close>

text \<open>
  Claim C3. With \<open>self\<close> at y 100 and \<open>expandHeight\<close> 50, B at y 150 with height 40 and
  C at y 210, all overlapping \<open>self\<close> horizontally and none transformational: the
  frontier starts at 150, B is pushed by 10 and the frontier becomes 200, the distance
  computed for C is 0 so the walk stops there, the MoveSet is exactly B with 10, and in
  the resulting collection B is at y 160 while C and \<open>self\<close> are as they were. This holds
  whatever the default height and width are.
\<close>

theorem avoidIntersections_scenario:
  "pos_y (position scenario_self) + expandHeight (scenario_args 50) = 150
   \<and> pushDownDistance 150 (pos_y (position scenario_B)) = 10
   \<and> cascade (scenario_common h w) (150, []) [scenario_B] = (200, [(''B'', 10)])
   \<and> pushDownDistance 200 (pos_y (position scenario_C)) = 0
   \<and> computeMoves (scenario_common h w) (scenario_args 50) scenario_self (getNodes scenario_flow)
       = [(''B'', 10)]
   \<and> nodes (fst (avoidIntersections (scenario_common h w) (scenario_args 50) scenario_flow))
       = [scenario_C, scenario_self, scenario_B\<lparr>position := \<lparr>pos_x = 0, pos_y = 160\<rparr>\<rparr>]"
  by (simp add: scenario_defs model_defs)

section \<open>The candidates\<close>

text \<open>
  Claim C4. In a collection with unique identifiers that holds \<open>self\<close>, the candidates are
  exactly the nodes of the snapshot, in its order, that are not \<open>self\<close>, whose y is at
  least the y of \<open>self\<close>, that are not transformational for the root type and that
  overlap \<open>self\<close> horizontally. A node of the collection that is not a candidate has no
  entry in the MoveSet and is left as it is by the move that \<open>avoidIntersections\<close>
  applies.
\<close>

theorem candidates_exact:
  assumes ids: "distinct (map id_node (nodes st))"
    and self: "getNode st (arg_id args) = Some self"
  shows "candidates c (rootType args) self (getNodes st)
         = filter (\<lambda>n. n \<noteq> self
                     \<and> pos_y (position n) \<ge> pos_y (position self)
                     \<and> \<not> isTransformational c (data n) (rootType args)
                     \<and> overlapsX c self n) (getNodes st)
       \<and> (\<forall>n \<in> set (nodes st).
            n \<notin> set (candidates c (rootType args) self (getNodes st)) \<longrightarrow>
            map_of (computeMoves c args self (getNodes st)) (id_node n) = None
            \<and> moveNode (computeMoves c args self (getNodes st)) True n = n)
       \<and> nodes (fst (avoidIntersections c args st))
         = map (moveNode (computeMoves c args self (getNodes st)) True) (nodes st)"
proof -
  have mem: "self \<in> set (nodes st)" using getNode_Some [OF self] by simp
  have "id_node n \<noteq> id_node self \<longleftrightarrow> n \<noteq> self" if "n \<in> set (nodes st)" for n
    using same_id_same_node [OF ids that mem] by simp
  then have c1: "candidates c (rootType args) self (getNodes st)
         = filter (\<lambda>n. n \<noteq> self
                     \<and> pos_y (position n) \<ge> pos_y (position self)
                     \<and> \<not> isTransformational c (data n) (rootType args)
                     \<and> overlapsX c self n) (getNodes st)"
    unfolding candidates_filter getNodes_def by (intro filter_cong) auto
  have ids': "distinct (map id_node (getNodes st))" using ids by (simp add: getNodes_def)
  have c2: "map_of (computeMoves c args self (getNodes st)) (id_node n) = None
            \<and> moveNode (computeMoves c args self (getNodes st)) True n = n"
    if n: "n \<in> set (nodes st)"
      and out: "n \<notin> set (candidates c (rootType args) self (getNodes st))" for n
  proof -
    have "n \<notin> set (sortByY (candidates c (rootType args) self (getNodes st)))"
      using out by (simp add: sortByY_def)
    then have "n \<notin> set (take (length (computeMoves c args self (getNodes st)))
                          (sortByY (candidates c (rootType args) self (getNodes st))))"
      by (auto dest: in_set_takeD)
    moreover have "n \<in> set (getNodes st)" using n by (simp add: getNodes_def)
    ultimately have "map_of (computeMoves c args self (getNodes st)) (id_node n) = None"
      using not_pushed_not_moved [OF ids'] by blast
    then show ?thesis by (simp add: moveNode_None)
  qed
  show ?thesis using c1 c2 nodes_avoidIntersections [OF self] by blast
qed

theorem candidates_exact_witness:
  "distinct (map id_node (nodes crowded_flow))
   \<and> getNode crowded_flow (arg_id (scenario_args 100)) = Some scenario_self
   \<and> candidates (scenario_common 80 320) (rootType (scenario_args 100)) scenario_self
        (getNodes crowded_flow) = [scenario_C, scenario_D, scenario_B]
   \<and> moveNode (computeMoves (scenario_common 80 320) (scenario_args 100) scenario_self
                 (getNodes crowded_flow)) True scenario_T = scenario_T
   \<and> moveNode (computeMoves (scenario_common 80 320) (scenario_args 100) scenario_self
                 (getNodes crowded_flow)) True scenario_A = scenario_A
   \<and> moveNode (computeMoves (scenario_common 80 320) (scenario_args 100) scenario_self
                 (getNodes crowded_flow)) True scenario_F = scenario_F
   \<and> moveNode (computeMoves (scenario_common 80 320) (scenario_args 100) scenario_self
                 (getNodes crowded_flow)) True scenario_self = scenario_self"
proof -
  have ids: "distinct (map id_node (nodes crowded_flow))"
    by (simp add: scenario_defs)
  have self: "getNode crowded_flow (arg_id (scenario_args 100)) = Some scenario_self"
    by (simp add: scenario_defs getNode_def)
  have cands: "candidates (scenario_common 80 320) (rootType (scenario_args 100)) scenario_self
                 (getNodes crowded_flow) = [scenario_C, scenario_D, scenario_B]"
    by (simp add: scenario_defs model_defs)
  have out: "scenario_T \<notin> set [scenario_C, scenario_D, scenario_B]"
    "scenario_A \<notin> set [scenario_C, scenario_D, scenario_B]"
    "scenario_F \<notin> set [scenario_C, scenario_D, scenario_B]"
    "scenario_self \<notin> set [scenario_C, scenario_D, scenario_B]"
    by (simp_all add: scenario_defs)
  have mem: "scenario_T \<in> set (nodes crowded_flow)" "scenario_A \<in> set (nodes crowded_flow)"
    "scenario_F \<in> set (nodes crowded_flow)" "scenario_self \<in> set (nodes crowded_flow)"
    by (simp_all add: crowded_flow_def)
  show ?thesis
    using candidates_exact [OF ids self, of "scenario_common 80 320"] ids self cands out mem
    by simp
qed

section \<open>Early stop\<close>

text \<open>
  Claim C5. In a collection with unique identifiers, let the sorted candidates be
  \<open>pre\<close>, then \<open>x\<close>, then \<open>post\<close>, and let the walk over \<open>pre\<close> end with frontier \<open>f\<close> and
  MoveSet \<open>m\<close>. If the gap of \<open>x\<close>, \<open>f + MIN_SEPARATION - y\<close>, is not positive, the walk
  stops at \<open>x\<close>: the MoveSet computed is \<open>m\<close>, neither \<open>x\<close> nor any candidate after it has
  an entry in it, and the move that \<open>avoidIntersections\<close> applies leaves them as they
  are.
\<close>

theorem cascade_early_stop:
  assumes ids: "distinct (map id_node (nodes st))"
    and self: "getNode st (arg_id args) = Some self"
    and split: "sortByY (candidates c (rootType args) self (getNodes st)) = pre @ x # post"
    and walk: "cascade c (pos_y (position self) + expandHeight args, []) pre = (f, m)"
    and gap: "f + MIN_SEPARATION - pos_y (position x) \<le> 0"
  shows "computeMoves c args self (getNodes st) = m
       \<and> (\<forall>n \<in> set (x # post). map_of m (id_node n) = None \<and> moveNode m True n = n)
       \<and> nodes (fst (avoidIntersections c args st)) = map (moveNode m True) (nodes st)"
proof -
  have M: "computeMoves c args self (getNodes st) = m"
    unfolding computeMoves_def split using cascade_stop [OF walk gap] by simp
  have "distinct (map id_node (getNodes st))" using ids by (simp add: getNodes_def)
  then have "distinct (map id_node (pre @ x # post))"
    using distinct_ids_sorted_candidates [of "getNodes st" c "rootType args" self]
    by (simp add: split)
  then have disj: "id_node ` set pre \<inter> id_node ` set (x # post) = {}" by auto
  have "fst ` set (snd (cascade c (pos_y (position self) + expandHeight args, []) pre))
        \<subseteq> id_node ` set pre"
    using cascade_keys [of c "pos_y (position self) + expandHeight args" "[]" pre] by simp
  then have keys: "fst ` set m \<subseteq> id_node ` set pre" using walk by simp
  have still: "map_of m (id_node n) = None \<and> moveNode m True n = n"
    if "n \<in> set (x # post)" for n
  proof -
    have "id_node n \<notin> fst ` set m" using that disj keys by blast
    then have "map_of m (id_node n) = None" by (simp add: map_of_eq_None_iff)
    then show ?thesis by (simp add: moveNode_None)
  qed
  show ?thesis using M still nodes_avoidIntersections [OF self, of c] by simp
qed

theorem cascade_early_stop_witness:
  "distinct (map id_node (nodes crowded_flow))
   \<and> getNode crowded_flow (arg_id (scenario_args 50)) = Some scenario_self
   \<and> sortByY (candidates (scenario_common 80 320) (rootType (scenario_args 50)) scenario_self
               (getNodes crowded_flow)) = [scenario_B] @ scenario_C # [scenario_D]
   \<and> cascade (scenario_common 80 320)
        (pos_y (position scenario_self) + expandHeight (scenario_args 50), []) [scenario_B]
      = (200, [(''B'', 10)])
   \<and> 200 + MIN_SEPARATION - pos_y (position scenario_C) \<le> 0
   \<and> computeMoves (scenario_common 80 320) (scenario_args 50) scenario_self
        (getNodes crowded_flow) = [(''B'', 10)]
   \<and> moveNode [(''B'', 10)] True scenario_C = scenario_C
   \<and> moveNode [(''B'', 10)] True scenario_D = scenario_D"
proof -
  have ids: "distinct (map id_node (nodes crowded_flow))"
    by (simp add: scenario_defs)
  have self: "getNode crowded_flow (arg_id (scenario_args 50)) = Some scenario_self"
    by (simp add: scenario_defs getNode_def)
  have split: "sortByY (candidates (scenario_common 80 320) (rootType (scenario_args 50))
                          scenario_self (getNodes crowded_flow))
               = [scenario_B] @ scenario_C # [scenario_D]"
    by (simp add: scenario_defs model_defs)
  have walk: "cascade (scenario_common 80 320)
                (pos_y (position scenario_self) + expandHeight (scenario_args 50), [])
                [scenario_B]
              = (200, [(''B'', 10)])"
    by (simp add: scenario_defs model_defs)
  have gap: "200 + MIN_SEPARATION - pos_y (position scenario_C) \<le> 0"
    by (simp add: scenario_defs MIN_SEPARATION_def)
  show ?thesis
    using cascade_early_stop [OF ids self split walk gap] ids self split walk gap
    by simp
qed

section \<open>No-ops\<close>

text \<open>
  Claim C6. When \<open>getNode\<close> finds no node for the id, \<open>avoidIntersections\<close> returns the
  instance as it was, the collection unchanged and no call of \<open>setNodes\<close> counted, and
  the cleanup function it returns leaves every instance as it is.
\<close>

theorem avoidIntersections_absent:
  "getNode st (arg_id args) = None \<Longrightarrow>
   fst (avoidIntersections c args st) = st \<and> (\<forall>s. snd (avoidIntersections c args st) s = s)"
  by (simp add: avoidIntersections_def)

theorem avoidIntersections_absent_witness:
  "getNode crowded_flow (arg_id ((scenario_args 50)\<lparr>arg_id := ''missing''\<rparr>)) = None
   \<and> fst (avoidIntersections (scenario_common 80 320)
            ((scenario_args 50)\<lparr>arg_id := ''missing''\<rparr>) crowded_flow) = crowded_flow
   \<and> setNodes_calls (fst (avoidIntersections (scenario_common 80 320)
            ((scenario_args 50)\<lparr>arg_id := ''missing''\<rparr>) crowded_flow)) = 0
   \<and> snd (avoidIntersections (scenario_common 80 320)
            ((scenario_args 50)\<lparr>arg_id := ''missing''\<rparr>) crowded_flow) scenario_flow
      = scenario_flow"
proof -
  have absent: "getNode crowded_flow (arg_id ((scenario_args 50)\<lparr>arg_id := ''missing''\<rparr>)) = None"
    by (simp add: scenario_defs getNode_def)
  have calls: "setNodes_calls crowded_flow = 0"
    by (simp add: crowded_flow_def)
  show ?thesis
    using avoidIntersections_absent [OF absent, of "scenario_common 80 320"] absent calls
    by simp
qed

text \<open>
  Claim C7. If no node of the snapshot other than \<open>self\<close> overlaps \<open>self\<close> horizontally,
  the MoveSet is empty for every \<open>expandHeight\<close>. Whenever the MoveSet computed for the
  node found is empty, \<open>avoidIntersections\<close> returns the instance as it was, no call of
  \<open>setNodes\<close> counted, and a cleanup function that leaves every instance as it is.
\<close>

theorem avoidIntersections_empty_moveset:
  "((\<forall>n \<in> set (getNodes st). id_node n \<noteq> id_node self \<longrightarrow> \<not> overlapsX c self n) \<longrightarrow>
      (\<forall>e. computeMoves c (args\<lparr>expandHeight := e\<rparr>) self (getNodes st) = []))
   \<and> (getNode st (arg_id args) = Some self
        \<and> computeMoves c args self (getNodes st) = [] \<longrightarrow>
      fst (avoidIntersections c args st) = st
      \<and> (\<forall>s. snd (avoidIntersections c args st) s = s))"
proof (intro conjI impI allI)
  fix e
  assume "\<forall>n \<in> set (getNodes st). id_node n \<noteq> id_node self \<longrightarrow> \<not> overlapsX c self n"
  then have "candidates c (rootType (args\<lparr>expandHeight := e\<rparr>)) self (getNodes st) = []"
    by (rule candidates_none)
  then show "computeMoves c (args\<lparr>expandHeight := e\<rparr>) self (getNodes st) = []"
    by (simp add: computeMoves_def sortByY_def)
next
  assume "getNode st (arg_id args) = Some self \<and> computeMoves c args self (getNodes st) = []"
  then show "fst (avoidIntersections c args st) = st"
    by (simp add: avoidIntersections_def)
next
  fix s
  assume "getNode st (arg_id args) = Some self \<and> computeMoves c args self (getNodes st) = []"
  then show "snd (avoidIntersections c args st) s = s"
    by (simp add: avoidIntersections_def)
qed

theorem avoidIntersections_empty_moveset_witness:
  "computeMoves (scenario_common 80 320) ((scenario_args 50)\<lparr>expandHeight := 1000\<rparr>)
     scenario_F (getNodes crowded_flow) = []
   \<and> getNode crowded_flow (arg_id (scenario_args 0)) = Some scenario_self
   \<and> computeMoves (scenario_common 80 320) (scenario_args 0) scenario_self
        (getNodes crowded_flow) = []
   \<and> fst (avoidIntersections (scenario_common 80 320) (scenario_args 0) crowded_flow)
      = crowded_flow
   \<and> snd (avoidIntersections (scenario_common 80 320) (scenario_args 0) crowded_flow)
        scenario_flow = scenario_flow"
proof -
  have alone: "\<forall>n \<in> set (getNodes crowded_flow).
                 id_node n \<noteq> id_node scenario_F \<longrightarrow>
                 \<not> overlapsX (scenario_common 80 320) scenario_F n"
    by (simp add: scenario_defs model_defs)
  have self: "getNode crowded_flow (arg_id (scenario_args 0)) = Some scenario_self"
    by (simp add: scenario_defs getNode_def)
  have empty: "computeMoves (scenario_common 80 320) (scenario_args 0) scenario_self
                 (getNodes crowded_flow) = []"
    by (simp add: scenario_defs model_defs)
  have first: "computeMoves (scenario_common 80 320) ((scenario_args 50)\<lparr>expandHeight := 1000\<rparr>)
                 scenario_F (getNodes crowded_flow) = []"
    using avoidIntersections_empty_moveset
            [of crowded_flow scenario_F "scenario_common 80 320" "scenario_args 50"] alone
    by blast
  have second: "fst (avoidIntersections (scenario_common 80 320) (scenario_args 0) crowded_flow)
                  = crowded_flow
                \<and> (\<forall>s. snd (avoidIntersections (scenario_common 80 320) (scenario_args 0)
                             crowded_flow) s = s)"
    using avoidIntersections_empty_moveset
            [of crowded_flow scenario_self "scenario_common 80 320" "scenario_args 0"]
          self empty
    by blast
  show ?thesis using first second self empty by simp
qed

section \<open>The frame of \<open>moveNodes\<close>\<close>



section \<open>Falsy dimensions\<close>

text \<open>
  Claim C9. A width or height of 0 is treated as an absent one: \<open>v || d\<close> is \<open>d\<close> for both.
  \<open>overlapsX\<close> on a node of width 0 is the comparison of the horizontal spans in which
  that node's right edge is its x plus \<open>LINEAGE_NODE_WIDTH\<close>, in either argument and in
  both, which is also its answer for the node without a width. The walk gives the same
  result for a node of height 0 as for the node without a height, and advances the
  frontier past such a node by \<open>LINEAGE_NODE_HEIGHT\<close>. With the default width 320, two
  nodes of width 0 in one column overlap, so do two such nodes 100 apart, and two such
  nodes 320 apart do not.
\<close>

theorem falsy_dimension_default:
  "or_default (Some 0) d = d \<and> or_default None d = d
   \<and> overlapsX c (a\<lparr>width := Some 0\<rparr>) b = overlapsX c (a\<lparr>width := None\<rparr>) b
   \<and> overlapsX c a (b\<lparr>width := Some 0\<rparr>) = overlapsX c a (b\<lparr>width := None\<rparr>)
   \<and> cascade c s (n\<lparr>height := Some 0\<rparr> # ns) = cascade c s (n\<lparr>height := None\<rparr> # ns)
   \<and> cascade c (newY, acc) [n\<lparr>height := Some 0\<rparr>]
     = (if truthy (pushDownDistance newY (pos_y (position n)))
        then (pos_y (position n) + pushDownDistance newY (pos_y (position n))
                + LINEAGE_NODE_HEIGHT c,
              AList.update (id_node n) (pushDownDistance newY (pos_y (position n))) acc)
        else (newY, acc))
   \<and> overlapsX (scenario_common 80 320) (scenario_self\<lparr>width := Some 0\<rparr>)
        (scenario_B\<lparr>width := Some 0\<rparr>)
   \<and> overlapsX c (a\<lparr>width := Some 0\<rparr>) b
     = (max (pos_x (position a)) (pos_x (position b))
        < min (pos_x (position a) + LINEAGE_NODE_WIDTH c)
              (pos_x (position b) + or_default (width b) (LINEAGE_NODE_WIDTH c)))
   \<and> overlapsX c a (b\<lparr>width := Some 0\<rparr>)
     = (max (pos_x (position a)) (pos_x (position b))
        < min (pos_x (position a) + or_default (width a) (LINEAGE_NODE_WIDTH c))
              (pos_x (position b) + LINEAGE_NODE_WIDTH c))
   \<and> overlapsX c (a\<lparr>width := Some 0\<rparr>) (b\<lparr>width := Some 0\<rparr>)
     = (max (pos_x (position a)) (pos_x (position b))
        < min (pos_x (position a) + LINEAGE_NODE_WIDTH c)
              (pos_x (position b) + LINEAGE_NODE_WIDTH c))
   \<and> overlapsX (scenario_common 80 320)
        (scenario_node ''a'' 0 0 None False\<lparr>width := Some 0\<rparr>)
        (scenario_node ''b'' 100 0 None False\<lparr>width := Some 0\<rparr>)
   \<and> \<not> overlapsX (scenario_common 80 320)
          (scenario_node ''a'' 0 0 None False\<lparr>width := Some 0\<rparr>)
          (scenario_node ''b'' 320 0 None False\<lparr>width := Some 0\<rparr>)"
proof -
  have casc: "cascade c s (n\<lparr>height := Some 0\<rparr> # ns) = cascade c s (n\<lparr>height := None\<rparr> # ns)"
    by (cases s) (simp add: or_default_def truthy_def Let_def)
  show ?thesis
    using casc by (simp add: or_default_def truthy_def overlapsX_def Let_def scenario_defs)
qed

section \<open>Repeated cleanup\<close>





end
